theory Spec2Isabelle
  imports Main "HOL-Library.Word"
begin

unbundle bit_operations_syntax

section \<open>Removing duplicate lines from a text file (main.py)\<close>

text \<open>
  The program reads a text file line by line, hashes every line with MD5, and writes a
  line to the output file the first time its digest is met. This theory embeds
  \<^verbatim>\<open>remove_duplicates\<close> of \<^verbatim>\<open>main.py\<close> together with the parts of
  the Python runtime its behaviour rests on: the text-mode file objects returned by
  \<^verbatim>\<open>open\<close>, the exceptions they raise, and \<^verbatim>\<open>hashlib.md5\<close>.

  A Python \<^verbatim>\<open>str\<close> read from a UTF-8 file is represented by its UTF-8 bytes, a
  \<^typ>\<open>string\<close>: decoding and encoding are inverse to each other on such strings, and
  the bytes of carriage return and line feed never occur inside a multi-byte sequence.
\<close>

subsection \<open>Text-mode files\<close>

abbreviation LF :: char where
  "LF \<equiv> CHR 0x0A"

abbreviation CR :: char where
  "CR \<equiv> CHR 0x0D"

text \<open>
  Both files are opened without a \<^verbatim>\<open>newline\<close> argument
  (\<^verbatim>\<open>open(input_file, 'r', encoding='utf-8')\<close>), that is in universal-newlines
  mode: on reading, the terminators \<^verbatim>\<open>\r\n\<close> and \<^verbatim>\<open>\r\<close> are delivered as
  \<^verbatim>\<open>\n\<close>.
\<close>

fun universal_newlines :: "string \<Rightarrow> string" where
  "universal_newlines [] = []"
| "universal_newlines [c] = (if c = CR then [LF] else [c])"
| "universal_newlines (c # d # cs) =
     (if c = CR then
        (if d = LF then LF # universal_newlines cs else LF # universal_newlines (d # cs))
      else c # universal_newlines (d # cs))"

text \<open>
  Iterating over the file (\<^verbatim>\<open>for line in f_in\<close>) yields the translated text cut
  after every \<^verbatim>\<open>\n\<close>; the terminator stays in the line, and a last line without
  terminator is yielded as it is.
\<close>

fun text_lines :: "string \<Rightarrow> string list" where
  "text_lines [] = []"
| "text_lines (c # cs) =
     (if c = LF then [LF] # text_lines cs
      else (case text_lines cs of [] \<Rightarrow> [[c]] | l # ls \<Rightarrow> (c # l) # ls))"

text \<open>
  On writing (\<^verbatim>\<open>open(output_file, 'w', encoding='utf-8')\<close>), every \<^verbatim>\<open>\n\<close> of
  the written text is stored as the platform's line separator \<^verbatim>\<open>os.linesep\<close>.
\<close>

datatype platform = Posix | Windows

fun os_linesep :: "platform \<Rightarrow> string" where
  "os_linesep Posix = [LF]"
| "os_linesep Windows = [CR, LF]"

definition write_newlines :: "platform \<Rightarrow> string \<Rightarrow> string" where
  "write_newlines os s = concat (map (\<lambda>c. if c = LF then os_linesep os else [c]) s)"

definition file_bytes :: "platform \<Rightarrow> string list \<Rightarrow> string" where
  \<comment> \<open>the content of a file after the calls \<^verbatim>\<open>write(w)\<close> for \<open>w\<close> in \<open>ws\<close>, flushed and closed\<close>
  "file_bytes os ws = concat (map (write_newlines os) ws)"

subsection \<open>Exceptions and the outcomes of the I/O calls\<close>

datatype py_exception =
    FileNotFoundError
  | PermissionError
  | OtherException string \<comment> \<open>any other subclass of \<^verbatim>\<open>Exception\<close>, with its \<^verbatim>\<open>str\<close>\<close>
  | NonException string \<comment> \<open>a \<^verbatim>\<open>BaseException\<close> outside \<^verbatim>\<open>Exception\<close>, such as \<^verbatim>\<open>KeyboardInterrupt\<close>\<close>

fun is_Exception :: "py_exception \<Rightarrow> bool" where
  "is_Exception (NonException n) = False"
| "is_Exception e = True"

text \<open>
  What the operating system does is not the program's: the environment of a run gives the
  outcome of every I/O call the function makes, whatever its cause. \<open>None\<close> is
  success. The lines are those the input stream delivers: when both paths name one file,
  opening the output truncates it before the first read, and the stream delivers no line.
  Closing the input file, which has nothing to flush, is taken to succeed.
\<close>

record io_env =
  open_input :: "py_exception option" \<comment> \<open>\<^verbatim>\<open>open(input_file, 'r', encoding='utf-8')\<close>\<close>
  open_output :: "py_exception option" \<comment> \<open>\<^verbatim>\<open>open(output_file, 'w', encoding='utf-8')\<close>\<close>
  input_lines :: "string list" \<comment> \<open>the lines the iteration over \<^verbatim>\<open>f_in\<close> yields, in order\<close>
  read_fault :: "py_exception option" \<comment> \<open>raised by the iteration after these lines, or end of file\<close>
  write_fault :: "(nat \<times> py_exception) option" \<comment> \<open>\<open>Some (k, e)\<close>: call number \<open>k\<close> (from 0) of \<^verbatim>\<open>f_out.write\<close> raises \<open>e\<close>\<close>
  close_output :: "py_exception option" \<comment> \<open>flushing and closing \<^verbatim>\<open>f_out\<close> when the \<^verbatim>\<open>with\<close> block is left\<close>
  print_fault :: "py_exception option" \<comment> \<open>\<^verbatim>\<open>print\<close> of a message in an \<^verbatim>\<open>except\<close> clause, for instance on a stdout that cannot encode it\<close>

definition stream_env :: "string list \<Rightarrow> io_env" where
  \<comment> \<open>no I/O call fails and the input stream yields the lines \<open>ls\<close>\<close>
  "stream_env ls =
     \<lparr>open_input = None, open_output = None, input_lines = ls, read_fault = None,
      write_fault = None, close_output = None, print_fault = None\<rparr>"

definition text_file_env :: "string \<Rightarrow> io_env" where
  \<comment> \<open>no I/O call fails and the input file, another file than the output, holds \<open>content\<close>\<close>
  "text_file_env content = stream_env (text_lines (universal_newlines content))"

definition fault_free :: "io_env \<Rightarrow> bool" where
  "fault_free env \<longleftrightarrow>
     open_input env = None \<and> open_output env = None \<and> read_fault env = None \<and>
     write_fault env = None \<and> close_output env = None"

definition faults :: "io_env \<Rightarrow> py_exception set" where
  \<comment> \<open>the exceptions the calls on the two files may raise in this environment\<close>
  "faults env =
     set_option (open_input env) \<union> set_option (open_output env) \<union>
     set_option (read_fault env) \<union> snd ` set_option (write_fault env) \<union>
     set_option (close_output env)"

subsection \<open>Paths and files\<close>

text \<open>
  The decoder of \<^verbatim>\<open>encoding='utf-8'\<close> is strict: it accepts the well-formed byte
  sequences of the Unicode standard only (no overlong form, no surrogate, nothing above
  U+10FFFF).
\<close>

definition continuation :: "char \<Rightarrow> bool" where
  "continuation c \<longleftrightarrow> (0x80::nat) \<le> of_char c \<and> of_char c \<le> (0xBF::nat)"

fun valid_utf8 :: "string \<Rightarrow> bool" where
  "valid_utf8 [] = True"
| "valid_utf8 (c # cs) =
     (let b = (of_char c :: nat) in
      if b < 0x80 then valid_utf8 cs
      else if 0xC2 \<le> b \<and> b \<le> 0xDF then
        (case cs of c1 # r \<Rightarrow> continuation c1 \<and> valid_utf8 r | _ \<Rightarrow> False)
      else if 0xE0 \<le> b \<and> b \<le> 0xEF then
        (case cs of
           c1 # c2 # r \<Rightarrow>
             continuation c1 \<and> (b = 0xE0 \<longrightarrow> (0xA0::nat) \<le> of_char c1) \<and>
             (b = 0xED \<longrightarrow> of_char c1 \<le> (0x9F::nat)) \<and> continuation c2 \<and> valid_utf8 r
         | _ \<Rightarrow> False)
      else if 0xF0 \<le> b \<and> b \<le> 0xF4 then
        (case cs of
           c1 # c2 # c3 # r \<Rightarrow>
             continuation c1 \<and> (b = 0xF0 \<longrightarrow> (0x90::nat) \<le> of_char c1) \<and>
             (b = 0xF4 \<longrightarrow> of_char c1 \<le> (0x8F::nat)) \<and> continuation c2 \<and>
             continuation c3 \<and> valid_utf8 r
         | _ \<Rightarrow> False)
      else False)"

text \<open>
  The two arguments of the function are paths, and \<^verbatim>\<open>open\<close> depends on them. A file
  system says which file a path names (two paths may name one file), what the existing
  files hold, and which files cannot be opened; the faults of the devices complete it.
  From it come the outcomes of the I/O calls of a run on two paths. The input is opened
  first and read lazily, and opening the output truncates it: when both paths name one
  file, nothing is left to read.
\<close>

record file_system =
  resolve :: "string \<Rightarrow> nat" \<comment> \<open>the file a path names, existing or not\<close>
  contents :: "nat \<Rightarrow> string option" \<comment> \<open>the bytes of the existing files\<close>
  read_refused :: "nat \<Rightarrow> py_exception option" \<comment> \<open>raised when an existing file is opened for reading: \<^verbatim>\<open>PermissionError\<close>, \<^verbatim>\<open>IsADirectoryError\<close>, ...\<close>
  write_refused :: "nat \<Rightarrow> py_exception option" \<comment> \<open>raised when a file is opened for writing: \<^verbatim>\<open>PermissionError\<close>, \<^verbatim>\<open>FileNotFoundError\<close> for a missing directory, ...\<close>
  undecodable :: "nat \<times> string" \<comment> \<open>for an input that is not UTF-8: the lines delivered before the \<^verbatim>\<open>UnicodeDecodeError\<close> (it depends on the buffering), and its \<^verbatim>\<open>str\<close>\<close>
  disk_fault :: "(nat \<times> py_exception) option" \<comment> \<open>as \<open>write_fault\<close>\<close>
  flush_fault :: "py_exception option" \<comment> \<open>as \<open>close_output\<close>\<close>
  stdout_fault :: "py_exception option" \<comment> \<open>as \<open>print_fault\<close>\<close>

definition open_files :: "file_system \<Rightarrow> string \<Rightarrow> string \<Rightarrow> io_env" where
  "open_files fs input_file output_file =
     (let data =
            (if resolve fs input_file = resolve fs output_file then []
             else (case contents fs (resolve fs input_file) of None \<Rightarrow> [] | Some c \<Rightarrow> c));
          ls = text_lines (universal_newlines data)
      in \<lparr>open_input =
             (case contents fs (resolve fs input_file) of
                None \<Rightarrow> Some FileNotFoundError
              | Some c \<Rightarrow> read_refused fs (resolve fs input_file)),
          open_output = write_refused fs (resolve fs output_file),
          input_lines = (if valid_utf8 data then ls else take (fst (undecodable fs)) ls),
          read_fault =
             (if valid_utf8 data then None else Some (OtherException (snd (undecodable fs)))),
          write_fault = disk_fault fs,
          close_output = flush_fault fs,
          print_fault = stdout_fault fs\<rparr>)"

definition single_file :: "string \<Rightarrow> string \<Rightarrow> file_system" where
  \<comment> \<open>one file, named by \<open>path\<close> only and holding \<open>content\<close>; everything may be opened and no device fails\<close>
  "single_file path content =
     \<lparr>resolve = (\<lambda>p. if p = path then 0 else Suc (length p)),
      contents = (\<lambda>f. if f = 0 then Some content else None),
      read_refused = (\<lambda>f. None), write_refused = (\<lambda>f. None), undecodable = (0, []),
      disk_fault = None, flush_fault = None, stdout_fault = None\<rparr>"

subsection \<open>hashlib.md5\<close>

text \<open>
  \<^verbatim>\<open>hashlib.md5(data).digest()\<close> is the MD5 message digest of RFC 1321: the message is
  padded to a multiple of 64 bytes, and each block of sixteen little-endian 32-bit words
  is mixed into four 32-bit registers in 64 steps.
\<close>

type_synonym byte = "8 word"

type_synonym md5_regs = "32 word \<times> 32 word \<times> 32 word \<times> 32 word"

definition md5_shifts :: "nat list" where
  "md5_shifts =
     [7, 12, 17, 22, 7, 12, 17, 22, 7, 12, 17, 22, 7, 12, 17, 22,
      5, 9, 14, 20, 5, 9, 14, 20, 5, 9, 14, 20, 5, 9, 14, 20,
      4, 11, 16, 23, 4, 11, 16, 23, 4, 11, 16, 23, 4, 11, 16, 23,
      6, 10, 15, 21, 6, 10, 15, 21, 6, 10, 15, 21, 6, 10, 15, 21]"

definition md5_sines :: "32 word list" where
  "md5_sines =
     [0xd76aa478, 0xe8c7b756, 0x242070db, 0xc1bdceee, 0xf57c0faf, 0x4787c62a, 0xa8304613, 0xfd469501,
      0x698098d8, 0x8b44f7af, 0xffff5bb1, 0x895cd7be, 0x6b901122, 0xfd987193, 0xa679438e, 0x49b40821,
      0xf61e2562, 0xc040b340, 0x265e5a51, 0xe9b6c7aa, 0xd62f105d, 0x02441453, 0xd8a1e681, 0xe7d3fbc8,
      0x21e1cde6, 0xc33707d6, 0xf4d50d87, 0x455a14ed, 0xa9e3e905, 0xfcefa3f8, 0x676f02d9, 0x8d2a4c8a,
      0xfffa3942, 0x8771f681, 0x6d9d6122, 0xfde5380c, 0xa4beea44, 0x4bdecfa9, 0xf6bb4b60, 0xbebfbc70,
      0x289b7ec6, 0xeaa127fa, 0xd4ef3085, 0x04881d05, 0xd9d4d039, 0xe6db99e5, 0x1fa27cf8, 0xc4ac5665,
      0xf4292244, 0x432aff97, 0xab9423a7, 0xfc93a039, 0x655b59c3, 0x8f0ccc92, 0xffeff47d, 0x85845dd1,
      0x6fa87e4f, 0xfe2ce6e0, 0xa3014314, 0x4e0811a1, 0xf7537e82, 0xbd3af235, 0x2ad7d2bb, 0xeb86d391]"

definition md5_pad :: "byte list \<Rightarrow> byte list" where
  \<comment> \<open>the byte 0x80, zeros up to 56 modulo 64, and the bit length as 8 little-endian bytes\<close>
  "md5_pad m =
     (let n = length m;
          zeros = (55 + 64 - n mod 64) mod 64;
          bits = (word_of_nat (8 * n) :: 64 word)
      in m @ [0x80] @ replicate zeros 0 @ map (\<lambda>i. ucast (drop_bit (8 * i) bits)) [0..<8])"

fun le_word32 :: "byte list \<Rightarrow> 32 word" where
  "le_word32 [] = 0"
| "le_word32 (b # bs) = ucast b OR push_bit 8 (le_word32 bs)"

definition bytes_le32 :: "32 word \<Rightarrow> byte list" where
  "bytes_le32 w = map (\<lambda>i. ucast (drop_bit (8 * i) w)) [0..<4]"

function chunks :: "nat \<Rightarrow> 'a list \<Rightarrow> 'a list list" where
  "chunks n xs = (if n = 0 \<or> xs = [] then [] else take n xs # chunks n (drop n xs))"
  by pat_completeness auto
termination
  by (relation "measure (\<lambda>(n, xs). length xs)") auto

definition md5_step :: "32 word list \<Rightarrow> md5_regs \<Rightarrow> nat \<Rightarrow> md5_regs" where
  "md5_step M regs i =
     (case regs of (A, B, C, D) \<Rightarrow>
        let (F, g) =
              (if i < 16 then ((B AND C) OR (NOT B AND D), i)
               else if i < 32 then ((D AND B) OR (NOT D AND C), (5 * i + 1) mod 16)
               else if i < 48 then (B XOR C XOR D, (3 * i + 5) mod 16)
               else (C XOR (B OR NOT D), (7 * i) mod 16));
            F' = F + A + md5_sines ! i + M ! g
        in (D, B + word_rotl (md5_shifts ! i) F', B, C))"

definition md5_block :: "md5_regs \<Rightarrow> byte list \<Rightarrow> md5_regs" where
  "md5_block regs blk =
     (let M = map le_word32 (chunks 4 blk) in
      case regs of (a0, b0, c0, d0) \<Rightarrow>
      case foldl (md5_step M) regs [0..<64] of (A, B, C, D) \<Rightarrow>
        (a0 + A, b0 + B, c0 + C, d0 + D))"

definition md5 :: "byte list \<Rightarrow> byte list" where
  "md5 m =
     (case foldl md5_block (0x67452301, 0xefcdab89, 0x98badcfe, 0x10325476)
             (chunks 64 (md5_pad m))
      of (a, b, c, d) \<Rightarrow> concat (map bytes_le32 [a, b, c, d]))"

definition encode_utf8 :: "string \<Rightarrow> byte list" where
  \<comment> \<open>\<^verbatim>\<open>line.encode('utf-8')\<close>: a line is represented by these bytes already\<close>
  "encode_utf8 s = map (\<lambda>c. word_of_nat (of_char c)) s"

definition md5_digest :: "string \<Rightarrow> byte list" where
  \<comment> \<open>\<^verbatim>\<open>hashlib.md5(line.encode('utf-8')).digest()\<close>\<close>
  "md5_digest line = md5 (encode_utf8 line)"

subsection \<open>remove_duplicates\<close>

text \<open>
  The local variables of the function, and the text written to \<^verbatim>\<open>f_out\<close> so far (the
  arguments of the calls of \<^verbatim>\<open>f_out.write\<close>, in order).
\<close>

record 'd loop_state =
  seen_hashes :: "'d set"
  unique_count :: int
  duplicate_count :: int
  f_out :: "string list"

definition initial_state :: "'d loop_state" where
  "initial_state = \<lparr>seen_hashes = {}, unique_count = 0, duplicate_count = 0, f_out = []\<rparr>"

text \<open>
  The body of the loop, for one line. The digest function \<open>h\<close> stands for
  \<^verbatim>\<open>hashlib.md5(line.encode('utf-8')).digest()\<close>; the program is the instance
  \<^term>\<open>md5_digest\<close>.
\<close>

definition process_line ::
  "(string \<Rightarrow> 'd) \<Rightarrow> (nat \<times> py_exception) option \<Rightarrow> string \<Rightarrow> 'd loop_state \<Rightarrow>
     py_exception + 'd loop_state" where
  "process_line h wfault line s =
     (let line_hash = h line in
      if line_hash \<notin> seen_hashes s then
        (case (case wfault of None \<Rightarrow> None
               | Some (k, e) \<Rightarrow> if k = length (f_out s) then Some e else None) of
           Some e \<Rightarrow> Inl e
         | None \<Rightarrow>
             Inr (s\<lparr>f_out := f_out s @ [line],
                    seen_hashes := insert line_hash (seen_hashes s),
                    unique_count := unique_count s + 1\<rparr>))
      else Inr (s\<lparr>duplicate_count := duplicate_count s + 1\<rparr>))"

text \<open>
  The loop \<^verbatim>\<open>for line in f_in\<close>. An exception leaves it at once; the state reached is
  kept beside the exception to speak about what had been written.
\<close>

fun for_lines ::
  "(string \<Rightarrow> 'd) \<Rightarrow> (nat \<times> py_exception) option \<Rightarrow> py_exception option \<Rightarrow> string list \<Rightarrow>
     'd loop_state \<Rightarrow> (py_exception \<times> 'd loop_state) + 'd loop_state" where
  "for_lines h wfault rfault [] s = (case rfault of Some e \<Rightarrow> Inl (e, s) | None \<Rightarrow> Inr s)"
| "for_lines h wfault rfault (line # rest) s =
     (case process_line h wfault line s of
        Inl e \<Rightarrow> Inl (e, s)
      | Inr s' \<Rightarrow> for_lines h wfault rfault rest s')"

text \<open>
  The three \<^verbatim>\<open>except\<close> clauses: each prints a message and then calls
  \<^verbatim>\<open>sys.exit(1)\<close>, which raises \<^verbatim>\<open>SystemExit\<close>. A \<^verbatim>\<open>BaseException\<close>
  outside \<^verbatim>\<open>Exception\<close> is caught by none of them. When \<^verbatim>\<open>print\<close> itself
  raises, \<^verbatim>\<open>sys.exit(1)\<close> is not reached and that exception leaves the function.
  The messages are kept by kind, with the values formatted into them; \<open>printed\<close> lists
  the messages whose \<^verbatim>\<open>print\<close> has returned.
\<close>

datatype message =
    InputNotFound string \<comment> \<open>the message of the \<^verbatim>\<open>FileNotFoundError\<close> clause, with \<^verbatim>\<open>input_file\<close>\<close>
  | NoAccess string string \<comment> \<open>of the \<^verbatim>\<open>PermissionError\<close> clause, with both paths\<close>
  | ProcessingError string \<comment> \<open>of the \<^verbatim>\<open>Exception\<close> clause, with \<^verbatim>\<open>str(e)\<close>\<close>

datatype raised = SystemExit int | Propagated py_exception

record run_result =
  outcome :: "raised + (int \<times> int)" \<comment> \<open>\<open>Inr\<close>: the pair returned\<close>
  printed :: "message list"
  output_lines :: "string list option" \<comment> \<open>\<open>None\<close>: the output file was not opened\<close>

fun handler_message :: "string \<Rightarrow> string \<Rightarrow> py_exception \<Rightarrow> message option" where
  "handler_message input_file output_file FileNotFoundError = Some (InputNotFound input_file)"
| "handler_message input_file output_file PermissionError =
     Some (NoAccess input_file output_file)"
| "handler_message input_file output_file (OtherException m) = Some (ProcessingError m)"
| "handler_message input_file output_file (NonException n) = None"

definition except_clauses ::
  "string \<Rightarrow> string \<Rightarrow> py_exception option \<Rightarrow> py_exception \<Rightarrow> string list option \<Rightarrow>
     run_result" where
  "except_clauses input_file output_file pfault e out =
     (case handler_message input_file output_file e of
        None \<Rightarrow> \<lparr>outcome = Inl (Propagated e), printed = [], output_lines = out\<rparr>
      | Some m \<Rightarrow>
          (case pfault of
             Some e' \<Rightarrow> \<lparr>outcome = Inl (Propagated e'), printed = [], output_lines = out\<rparr>
           | None \<Rightarrow> \<lparr>outcome = Inl (SystemExit 1), printed = [m], output_lines = out\<rparr>))"

text \<open>
  The function. The \<^verbatim>\<open>with\<close> statement opens the input, then the output; leaving the
  block closes the output file first, and an exception raised by that replaces the one
  that left the loop.
\<close>

definition remove_duplicates ::
  "(string \<Rightarrow> 'd) \<Rightarrow> string \<Rightarrow> string \<Rightarrow> io_env \<Rightarrow> run_result" where
  "remove_duplicates h input_file output_file env =
     (case open_input env of
        Some e \<Rightarrow> except_clauses input_file output_file (print_fault env) e None
      | None \<Rightarrow>
          (case open_output env of
             Some e \<Rightarrow> except_clauses input_file output_file (print_fault env) e None
           | None \<Rightarrow>
               (case for_lines h (write_fault env) (read_fault env) (input_lines env)
                       initial_state of
                  Inl (e, s) \<Rightarrow>
                    except_clauses input_file output_file (print_fault env)
                      (case close_output env of Some e' \<Rightarrow> e' | None \<Rightarrow> e) (Some (f_out s))
                | Inr s \<Rightarrow>
                    (case close_output env of
                       Some e \<Rightarrow>
                         except_clauses input_file output_file (print_fault env) e
                           (Some (f_out s))
                     | None \<Rightarrow>
                         \<lparr>outcome = Inr (unique_count s, duplicate_count s), printed = [],
                          output_lines = Some (f_out s)\<rparr>))))"

subsection \<open>The specification's reading of the output\<close>

text \<open>
  The input's lines filtered to first occurrences: line number \<open>i\<close> is kept iff no earlier
  line produced the same digest; the kept lines stay in their order.
\<close>

definition first_occurrences :: "(string \<Rightarrow> 'd) \<Rightarrow> string list \<Rightarrow> string list" where
  "first_occurrences h ls =
     map (\<lambda>i. ls ! i) (filter (\<lambda>i. h (ls ! i) \<notin> h ` set (take i ls)) [0..<length ls])"

subsection \<open>Auxiliary functions of the proofs\<close>

text \<open>
  The lines the loop writes when it starts with the set \<open>S\<close> of digests, by recursion
  over the lines that are left.
\<close>

fun unseen_lines :: "(string \<Rightarrow> 'd) \<Rightarrow> 'd set \<Rightarrow> string list \<Rightarrow> string list" where
  "unseen_lines h S [] = []"
| "unseen_lines h S (l # ls) =
     (if h l \<in> S then unseen_lines h S ls else l # unseen_lines h (insert (h l) S) ls)"

text \<open>
  The shape of the lines of a text: none is empty, a line feed stands only at the end of
  a line, and every line but the last ends with one.
\<close>

fun well_formed :: "string list \<Rightarrow> bool" where
  "well_formed [] = True"
| "well_formed [l] = (l \<noteq> [] \<and> LF \<notin> set (butlast l))"
| "well_formed (l # l' # ls) =
     (l \<noteq> [] \<and> LF \<notin> set (butlast l) \<and> last l = LF \<and> well_formed (l' # ls))"

section \<open>Properties\<close>

subsection \<open>MD5 on the test suite of RFC 1321 and on the lines of the scenarios\<close>

lemma md5_empty:
  "md5_digest [] =
     [0xd4, 0x1d, 0x8c, 0xd9, 0x8f, 0x00, 0xb2, 0x04, 0xe9, 0x80, 0x09, 0x98, 0xec, 0xf8, 0x42, 0x7e]"
  by code_simp

lemma md5_abc:
  "md5_digest ''abc'' =
     [0x90, 0x01, 0x50, 0x98, 0x3c, 0xd2, 0x4f, 0xb0, 0xd6, 0x96, 0x3f, 0x7d, 0x28, 0xe1, 0x7f, 0x72]"
  by code_simp

lemma md5_alphabet:
  "md5_digest ''abcdefghijklmnopqrstuvwxyz'' =
     [0xc3, 0xfc, 0xd3, 0xd7, 0x61, 0x92, 0xe4, 0x00, 0x7d, 0xfb, 0x49, 0x6c, 0xca, 0x67, 0xe1, 0x3b]"
  by code_simp

lemma md5_two_blocks:
  "md5_digest ''12345678901234567890123456789012345678901234567890123456789012345678901234567890'' =
     [0x57, 0xed, 0xf4, 0xa2, 0x2b, 0xe3, 0xc9, 0x55, 0xac, 0x49, 0xda, 0x2e, 0x21, 0x07, 0xb6, 0x7a]"
  by code_simp

lemma md5_line_a:
  "md5_digest [CHR ''a'', LF] =
     [0x60, 0xb7, 0x25, 0xf1, 0x0c, 0x9c, 0x85, 0xc7, 0x0d, 0x97, 0x88, 0x0d, 0xfe, 0x81, 0x91, 0xb3]"
  by code_simp

lemma md5_line_b:
  "md5_digest [CHR ''b'', LF] =
     [0x3b, 0x5d, 0x5c, 0x37, 0x12, 0x95, 0x50, 0x42, 0x21, 0x23, 0x16, 0x17, 0x3c, 0xcf, 0x37, 0xbe]"
  by code_simp

lemma md5_line_c:
  "md5_digest [CHR ''c'', LF] =
     [0x2c, 0xd6, 0xee, 0x2c, 0x70, 0xb0, 0xbd, 0xe5, 0x3f, 0xbe, 0x6c, 0xac, 0x3c, 0x8b, 0x8b, 0xb1]"
  by code_simp


subsection \<open>The loop and the first occurrences\<close>

lemma unseen_lines_index:
  "unseen_lines h S ls =
     map (\<lambda>i. ls ! i) (filter (\<lambda>i. h (ls ! i) \<notin> S \<union> h ` set (take i ls)) [0..<length ls])"
proof (induction ls arbitrary: S)
  case Nil
  then show ?case by simp
next
  case (Cons l ls)
  have upt: "[0..<length (l # ls)] = 0 # map Suc [0..<length ls]"
    by (simp add: upt_conv_Cons map_Suc_upt del: upt_Suc)
  show ?case
  proof (cases "h l \<in> S")
    case True
    then have "filter (\<lambda>i. h (ls ! i) \<notin> S \<and> h (ls ! i) \<noteq> h l \<and> h (ls ! i) \<notin> h ` set (take i ls)) xs =
               filter (\<lambda>i. h (ls ! i) \<notin> S \<and> h (ls ! i) \<notin> h ` set (take i ls)) xs" for xs
      by (intro filter_cong) auto
    with True Cons.IH [of S] show ?thesis
      unfolding upt by (simp add: filter_map comp_def)
  next
    case False
    with Cons.IH [of "insert (h l) S"] show ?thesis
      unfolding upt by (simp add: filter_map comp_def conj_commute conj_left_commute)
  qed
qed

lemma first_occurrences_unseen: "first_occurrences h ls = unseen_lines h {} ls"
  by (simp add: first_occurrences_def unseen_lines_index)

lemma unseen_lines_subset: "set (unseen_lines h S ls) \<subseteq> set ls"
  by (induction ls arbitrary: S) auto

lemma unseen_lines_fresh: "h ` set (unseen_lines h S ls) \<inter> S = {}"
proof (induction ls arbitrary: S)
  case Nil
  then show ?case by simp
next
  case (Cons l ls)
  from Cons.IH [of S] Cons.IH [of "insert (h l) S"] show ?case by auto
qed

lemma unseen_lines_distinct: "distinct (map h (unseen_lines h S ls))"
proof (induction ls arbitrary: S)
  case Nil
  then show ?case by simp
next
  case (Cons l ls)
  from unseen_lines_fresh [of h "insert (h l) S" ls]
  have "h l \<notin> h ` set (unseen_lines h (insert (h l) S) ls)" by auto
  with Cons.IH show ?case by simp
qed

lemma unseen_lines_append:
  "unseen_lines h S (xs @ ys) = unseen_lines h S xs @ unseen_lines h (S \<union> h ` set xs) ys"
proof (induction xs arbitrary: S)
  case Nil
  then show ?case by simp
next
  case (Cons x xs)
  show ?case
  proof (cases "h x \<in> S")
    case True
    then have "S \<union> h ` set (x # xs) = S \<union> h ` set xs" by auto
    with True Cons.IH [of S] show ?thesis by simp
  next
    case False
    have "S \<union> h ` set (x # xs) = insert (h x) S \<union> h ` set xs" by auto
    with False Cons.IH [of "insert (h x) S"] show ?thesis by simp
  qed
qed

lemma unseen_lines_all_new:
  "distinct (map h ls) \<Longrightarrow> h ` set ls \<inter> S = {} \<Longrightarrow> unseen_lines h S ls = ls"
  by (induction ls arbitrary: S) auto

lemma process_line_cases:
  "process_line h wfault line s = Inr s' \<Longrightarrow>
     (h line \<notin> seen_hashes s \<and>
        s' = s\<lparr>f_out := f_out s @ [line], seen_hashes := insert (h line) (seen_hashes s),
               unique_count := unique_count s + 1\<rparr>) \<or>
     (h line \<in> seen_hashes s \<and> s' = s\<lparr>duplicate_count := duplicate_count s + 1\<rparr>)"
  by (auto simp: process_line_def Let_def split: if_splits option.splits)

lemma process_line_no_fault:
  "process_line h None line s =
     Inr (if h line \<notin> seen_hashes s
          then s\<lparr>f_out := f_out s @ [line], seen_hashes := insert (h line) (seen_hashes s),
                 unique_count := unique_count s + 1\<rparr>
          else s\<lparr>duplicate_count := duplicate_count s + 1\<rparr>)"
  by (simp add: process_line_def)

lemma process_line_Inl:
  "process_line h wfault line s = Inl e \<Longrightarrow>
     h line \<notin> seen_hashes s \<and> wfault = Some (length (f_out s), e)"
  by (auto simp: process_line_def Let_def split: if_splits option.splits)

lemma for_lines_Inr:
  "for_lines h wfault rfault ls s = Inr s' \<Longrightarrow>
     rfault = None \<and>
     f_out s' = f_out s @ unseen_lines h (seen_hashes s) ls \<and>
     seen_hashes s' = seen_hashes s \<union> h ` set ls \<and>
     unique_count s' = unique_count s + int (length (unseen_lines h (seen_hashes s) ls)) \<and>
     unique_count s' + duplicate_count s' = unique_count s + duplicate_count s + int (length ls)"
proof (induction ls arbitrary: s)
  case Nil
  then show ?case by (simp split: option.splits)
next
  case (Cons line rest)
  from Cons.prems obtain s1 where
    step: "process_line h wfault line s = Inr s1" and
    rest: "for_lines h wfault rfault rest s1 = Inr s'"
    by (auto split: sum.splits)
  note IH = Cons.IH [OF rest]
  from process_line_cases [OF step] show ?case
  proof
    assume "h line \<notin> seen_hashes s \<and>
        s1 = s\<lparr>f_out := f_out s @ [line], seen_hashes := insert (h line) (seen_hashes s),
               unique_count := unique_count s + 1\<rparr>"
    with IH show ?thesis by auto
  next
    assume a: "h line \<in> seen_hashes s \<and> s1 = s\<lparr>duplicate_count := duplicate_count s + 1\<rparr>"
    then have "seen_hashes s \<union> h ` set (line # rest) = seen_hashes s \<union> h ` set rest" by auto
    with a IH show ?thesis by auto
  qed
qed

lemma for_lines_fault_free: "\<exists>s'. for_lines h None None ls s = Inr s'"
  by (induction ls arbitrary: s) (simp_all add: process_line_no_fault)

lemma for_lines_prefix:
  "for_lines h wfault rfault ls s = Inl (e, s') \<or> for_lines h wfault rfault ls s = Inr s' \<Longrightarrow>
     \<exists>k. f_out s' = f_out s @ take k (unseen_lines h (seen_hashes s) ls)"
proof (induction ls arbitrary: s)
  case Nil
  then show ?case by (auto split: option.splits)
next
  case (Cons line rest)
  show ?case
  proof (cases "process_line h wfault line s")
    case (Inl e')
    with Cons.prems have "s' = s" by auto
    then show ?thesis by (intro exI [of _ 0]) simp
  next
    case (Inr s1)
    with Cons.prems have
      "for_lines h wfault rfault rest s1 = Inl (e, s') \<or> for_lines h wfault rfault rest s1 = Inr s'"
      by auto
    from Cons.IH [OF this] obtain k where
      k: "f_out s' = f_out s1 @ take k (unseen_lines h (seen_hashes s1) rest)" by blast
    from process_line_cases [OF Inr] show ?thesis
    proof
      assume "h line \<notin> seen_hashes s \<and>
        s1 = s\<lparr>f_out := f_out s @ [line], seen_hashes := insert (h line) (seen_hashes s),
               unique_count := unique_count s + 1\<rparr>"
      with k show ?thesis by (intro exI [of _ "Suc k"]) simp
    next
      assume "h line \<in> seen_hashes s \<and> s1 = s\<lparr>duplicate_count := duplicate_count s + 1\<rparr>"
      with k show ?thesis by (intro exI [of _ k]) simp
    qed
  qed
qed


lemma except_clauses_outcome:
  "outcome (except_clauses input_file output_file pfault e out) \<noteq> Inr c"
  by (simp add: except_clauses_def split: option.splits)

lemma except_clauses_output:
  "output_lines (except_clauses input_file output_file pfault e out) = out"
  by (simp add: except_clauses_def split: option.splits)

lemma run_returns:
  assumes "outcome (remove_duplicates h input_file output_file env) = Inr (u, d)"
  shows "remove_duplicates h input_file output_file env =
           \<lparr>outcome = Inr (u, d), printed = [],
            output_lines = Some (first_occurrences h (input_lines env))\<rparr> \<and>
         u = int (length (first_occurrences h (input_lines env))) \<and>
         u + d = int (length (input_lines env))"
proof -
  from assms obtain s where
    loop: "for_lines h (write_fault env) (read_fault env) (input_lines env) initial_state = Inr s"
    and res: "remove_duplicates h input_file output_file env =
           \<lparr>outcome = Inr (unique_count s, duplicate_count s), printed = [],
            output_lines = Some (f_out s)\<rparr>"
    by (auto simp: remove_duplicates_def except_clauses_outcome
        split: option.splits sum.splits prod.splits)
  from for_lines_Inr [OF loop] have
    "f_out s = first_occurrences h (input_lines env)"
    "unique_count s = int (length (first_occurrences h (input_lines env)))"
    "unique_count s + duplicate_count s = int (length (input_lines env))"
    by (simp_all add: initial_state_def first_occurrences_unseen)
  with res assms show ?thesis by simp
qed

lemma run_fault_free:
  assumes "fault_free env"
  shows "remove_duplicates h input_file output_file env =
           \<lparr>outcome = Inr (int (length (first_occurrences h (input_lines env))),
               int (length (input_lines env)) -
               int (length (first_occurrences h (input_lines env)))),
            printed = [],
            output_lines = Some (first_occurrences h (input_lines env))\<rparr>"
proof -
  obtain s where
    "for_lines h None None (input_lines env) initial_state = Inr s"
    using for_lines_fault_free by blast
  with assms have
    "outcome (remove_duplicates h input_file output_file env) =
       Inr (unique_count s, duplicate_count s)"
    by (simp add: remove_duplicates_def fault_free_def)
  from run_returns [OF this] show ?thesis by auto
qed

lemma fault_free_stream_env: "fault_free (stream_env ls)"
  by (simp add: fault_free_def stream_env_def)

lemma input_lines_stream_env: "input_lines (stream_env ls) = ls"
  by (simp add: stream_env_def)

lemma run_output_prefix:
  assumes "output_lines (remove_duplicates h input_file output_file env) = Some ws"
  shows "\<exists>k. ws = take k (first_occurrences h (input_lines env))"
proof (cases "for_lines h (write_fault env) (read_fault env) (input_lines env) initial_state")
  case (Inl p)
  obtain e s where p: "p = (e, s)" by (cases p)
  from assms Inl p have "ws = f_out s"
    by (auto simp: remove_duplicates_def except_clauses_output split: option.splits)
  moreover from
    for_lines_prefix [of h "write_fault env" "read_fault env" "input_lines env" initial_state e s]
    Inl p
  obtain k where "f_out s = take k (first_occurrences h (input_lines env))"
    by (auto simp: initial_state_def first_occurrences_unseen)
  ultimately show ?thesis by blast
next
  case (Inr s)
  from assms Inr have "ws = f_out s"
    by (auto simp: remove_duplicates_def except_clauses_output split: option.splits)
  moreover from for_lines_Inr [OF Inr]
  have "f_out s =
    take (length (first_occurrences h (input_lines env))) (first_occurrences h (input_lines env))"
    by (simp add: initial_state_def first_occurrences_unseen)
  ultimately show ?thesis by blast
qed

lemma first_occurrences_distinct: "distinct (map h (first_occurrences h ls))"
  by (simp add: first_occurrences_unseen unseen_lines_distinct)

lemma first_occurrences_drop:
  assumes "h l \<in> h ` set pre"
  shows "first_occurrences h (pre @ l # post) = first_occurrences h (pre @ post)"
  using assms by (simp add: first_occurrences_unseen unseen_lines_append)

lemma first_occurrences_all_new:
  "distinct (map h ls) \<Longrightarrow> first_occurrences h ls = ls"
  by (simp add: first_occurrences_unseen unseen_lines_all_new)

subsection \<open>Reading back what was written\<close>

lemma universal_newlines_no_CR: "CR \<notin> set (universal_newlines s)"
  by (induction s rule: universal_newlines.induct) auto

lemma universal_newlines_Cons:
  "c \<noteq> CR \<Longrightarrow> universal_newlines (c # cs) = c # universal_newlines cs"
  by (cases cs) auto

lemma universal_newlines_append:
  "CR \<notin> set x \<Longrightarrow> universal_newlines (x @ r) = x @ universal_newlines r"
  by (induction x) (auto simp: universal_newlines_Cons)

lemma universal_newlines_id: "CR \<notin> set s \<Longrightarrow> universal_newlines s = s"
  using universal_newlines_append [of s "[]"] by simp

lemma concat_text_lines: "concat (text_lines t) = t"
  by (induction t) (auto split: list.splits)

lemma text_lines_terminated:
  "LF \<notin> set x \<Longrightarrow> text_lines (x @ LF # r) = (x @ [LF]) # text_lines r"
  by (induction x) auto

lemma text_lines_single: "l \<noteq> [] \<Longrightarrow> LF \<notin> set (butlast l) \<Longrightarrow> text_lines l = [l]"
  by (induction l) (auto split: if_splits)

lemma text_lines_concat: "well_formed ws \<Longrightarrow> text_lines (concat ws) = ws"
proof (induction ws rule: well_formed.induct)
  case 1
  then show ?case by simp
next
  case (2 l)
  then show ?case by (simp add: text_lines_single)
next
  case (3 l l' ls)
  then have ne: "l \<noteq> []" and last: "last l = LF" and nolf: "LF \<notin> set (butlast l)"
    by simp_all
  from ne have "butlast l @ [last l] = l" by simp
  with last have l: "l = butlast l @ [LF]" by simp
  from 3 have IH: "text_lines (concat (l' # ls)) = l' # ls" by simp
  have "text_lines (concat (l # l' # ls)) = text_lines (butlast l @ LF # concat (l' # ls))"
    by (subst l) simp
  also have "\<dots> = (butlast l @ [LF]) # text_lines (concat (l' # ls))"
    using nolf by (rule text_lines_terminated)
  finally show ?case using l IH by simp
qed

lemma well_formed_text_lines: "well_formed (text_lines t)"
proof (induction t)
  case Nil
  then show ?case by simp
next
  case (Cons c t)
  show ?case
  proof (cases "c = LF")
    case True
    with Cons show ?thesis by (cases "text_lines t") auto
  next
    case False
    show ?thesis
    proof (cases "text_lines t")
      case Nil
      with False show ?thesis by simp
    next
      case (Cons l ls)
      with False Cons.IH show ?thesis by (cases ls) auto
    qed
  qed
qed

lemma well_formed_tl: "well_formed (l # ls) \<Longrightarrow> well_formed ls"
  by (cases ls) auto

lemma well_formed_Cons:
  "well_formed (l # ls) \<Longrightarrow> well_formed ms \<Longrightarrow> (ms \<noteq> [] \<Longrightarrow> ls \<noteq> []) \<Longrightarrow> well_formed (l # ms)"
  by (cases ls; cases ms) auto

lemma well_formed_unseen: "well_formed ls \<Longrightarrow> well_formed (unseen_lines h S ls)"
proof (induction ls arbitrary: S)
  case Nil
  then show ?case by simp
next
  case (Cons l ls)
  from Cons.prems have tl: "well_formed ls" by (rule well_formed_tl)
  show ?case
  proof (cases "h l \<in> S")
    case True
    with Cons.IH [OF tl] show ?thesis by simp
  next
    case False
    have "well_formed (l # unseen_lines h (insert (h l) S) ls)"
      using Cons.prems Cons.IH [OF tl]
    proof (rule well_formed_Cons)
      assume "unseen_lines h (insert (h l) S) ls \<noteq> []"
      then show "ls \<noteq> []" by auto
    qed
    with False show ?thesis by simp
  qed
qed

lemma write_newlines_Cons:
  "write_newlines os (c # s) = (if c = LF then os_linesep os else [c]) @ write_newlines os s"
  by (simp add: write_newlines_def)

lemma read_written: "CR \<notin> set s \<Longrightarrow> universal_newlines (write_newlines os s) = s"
proof (induction s)
  case Nil
  then show ?case by (simp add: write_newlines_def)
next
  case (Cons c s)
  then show ?case
    by (cases os) (auto simp: write_newlines_Cons universal_newlines_Cons)
qed

lemma file_bytes_concat: "file_bytes os ws = write_newlines os (concat ws)"
  by (induction ws) (simp_all add: file_bytes_def write_newlines_def)

lemma reread_output:
  fixes content :: string and h :: "string \<Rightarrow> 'd"
  defines "ws \<equiv> first_occurrences h (text_lines (universal_newlines content))"
  shows "text_lines (universal_newlines (file_bytes os ws)) = ws"
proof -
  have "set (concat ws) \<subseteq> set (concat (text_lines (universal_newlines content)))"
    using unseen_lines_subset [of h "{}" "text_lines (universal_newlines content)"]
    by (auto simp: ws_def first_occurrences_unseen)
  then have "CR \<notin> set (concat ws)"
    using universal_newlines_no_CR [of content] by (auto simp: concat_text_lines)
  then have "universal_newlines (file_bytes os ws) = concat ws"
    by (simp add: file_bytes_concat read_written)
  moreover have "well_formed ws"
    unfolding ws_def first_occurrences_unseen
    by (intro well_formed_unseen well_formed_text_lines)
  ultimately show ?thesis by (simp add: text_lines_concat)
qed

subsection \<open>Lines of a file\<close>

lemma universal_newlines_split:
  "a \<noteq> [] \<Longrightarrow> last a \<noteq> CR \<Longrightarrow>
     universal_newlines (a @ b) = universal_newlines a @ universal_newlines b"
proof (induction a rule: universal_newlines.induct)
  case 1
  then show ?case by simp
next
  case (2 c)
  then show ?case by (simp add: universal_newlines_Cons)
next
  case (3 c d cs)
  then show ?case by (cases cs) (auto simp: universal_newlines_Cons)
qed

lemma universal_newlines_last:
  "a \<noteq> [] \<Longrightarrow> last a = LF \<Longrightarrow>
     universal_newlines a \<noteq> [] \<and> last (universal_newlines a) = LF"
  by (induction a rule: universal_newlines.induct) (auto split: if_splits)

lemma text_lines_Nil: "text_lines t = [] \<longleftrightarrow> t = []"
  by (cases t) (auto split: list.splits)

lemma text_lines_split:
  "a = [] \<or> last a = LF \<Longrightarrow> text_lines (a @ b) = text_lines a @ text_lines b"
proof (induction a)
  case Nil
  then show ?case by simp
next
  case (Cons c a)
  show ?case
  proof (cases "a = []")
    case True
    with Cons.prems show ?thesis by simp
  next
    case False
    with Cons.prems have "last a = LF" by simp
    with Cons.IH have IH: "text_lines (a @ b) = text_lines a @ text_lines b" by simp
    from False obtain l ls where "text_lines a = l # ls"
      by (cases "text_lines a") (simp_all add: text_lines_Nil)
    with IH show ?thesis by simp
  qed
qed

lemma file_lines_split:
  assumes "a = [] \<or> last a = LF"
  shows "text_lines (universal_newlines (a @ b)) =
         text_lines (universal_newlines a) @ text_lines (universal_newlines b)"
proof (cases "a = []")
  case True
  then show ?thesis by simp
next
  case False
  with assms have l: "last a = LF" by simp
  with False have "universal_newlines (a @ b) = universal_newlines a @ universal_newlines b"
    by (intro universal_newlines_split) simp_all
  moreover from universal_newlines_last [OF False l]
  have "universal_newlines a = [] \<or> last (universal_newlines a) = LF" by simp
  ultimately show ?thesis by (simp add: text_lines_split)
qed

lemma file_lines_line:
  assumes "CR \<notin> set x" and "LF \<notin> set x" and "t = [LF] \<or> t = [CR, LF]"
  shows "text_lines (universal_newlines (x @ t @ r)) =
         (x @ [LF]) # text_lines (universal_newlines r)"
proof -
  have "universal_newlines (x @ t @ r) = x @ LF # universal_newlines r"
    using assms(1, 3) by (auto simp: universal_newlines_append universal_newlines_Cons)
  with assms(2) show ?thesis by (simp add: text_lines_terminated)
qed

lemma well_formed_member:
  "well_formed ls \<Longrightarrow> w \<in> set ls \<Longrightarrow> w \<noteq> [] \<and> LF \<notin> set (butlast w)"
  by (induction ls rule: well_formed.induct) auto

lemma write_newlines_append:
  "write_newlines os (a @ b) = write_newlines os a @ write_newlines os b"
  by (simp add: write_newlines_def)

lemma write_newlines_id: "LF \<notin> set y \<Longrightarrow> write_newlines os y = y"
  by (induction y) (auto simp: write_newlines_def)

lemma written_line_bytes:
  assumes "w \<noteq> []" and "LF \<notin> set (butlast w)" and "CR \<notin> set w"
  shows "\<exists>y. CR \<notin> set y \<and> LF \<notin> set y \<and>
           ((w = y @ [LF] \<and> file_bytes os [w] = y @ os_linesep os) \<or>
            (w = y \<and> file_bytes os [w] = y))"
proof (cases "last w = LF")
  case True
  with assms(1) have w: "w = butlast w @ [LF]"
    using append_butlast_last_id [of w] by simp
  have "file_bytes os [butlast w @ [LF]] = butlast w @ os_linesep os"
    using assms(2)
    by (simp add: file_bytes_def write_newlines_append write_newlines_id)
      (simp add: write_newlines_def)
  moreover have "CR \<notin> set (butlast w)"
    using assms(3) by (auto dest: in_set_butlastD)
  ultimately show ?thesis using assms(2) w by metis
next
  case False
  with assms(1, 2) have "LF \<notin> set w"
    using append_butlast_last_id [of w] by (metis Un_iff empty_iff empty_set set_ConsD set_append)
  then have "file_bytes os [w] = w"
    by (simp add: file_bytes_def write_newlines_id)
  with assms(3) \<open>LF \<notin> set w\<close> show ?thesis by blast
qed

lemma open_files_fault_free:
  assumes "fault_free (open_files fs input_file output_file)"
    and "resolve fs input_file \<noteq> resolve fs output_file"
    and "contents fs (resolve fs input_file) = Some c"
  shows "input_lines (open_files fs input_file output_file) =
         text_lines (universal_newlines c)"
  using assms by (auto simp: fault_free_def open_files_def Let_def split: if_splits)

lemma first_occurrences_written:
  assumes "w \<in> set (first_occurrences h (text_lines (universal_newlines c)))"
  shows "\<exists>y. CR \<notin> set y \<and> LF \<notin> set y \<and>
           ((w = y @ [LF] \<and> file_bytes os [w] = y @ os_linesep os) \<or>
            (w = y \<and> file_bytes os [w] = y))"
proof -
  from assms have w: "w \<in> set (text_lines (universal_newlines c))"
    using unseen_lines_subset [of h "{}"] by (auto simp: first_occurrences_unseen)
  then have "set w \<subseteq> set (concat (text_lines (universal_newlines c)))" by auto
  then have "CR \<notin> set w"
    using universal_newlines_no_CR [of c] by (auto simp: concat_text_lines)
  moreover from well_formed_member [OF well_formed_text_lines w]
  have "w \<noteq> []" and "LF \<notin> set (butlast w)" by simp_all
  ultimately show ?thesis by (intro written_line_bytes)
qed

subsection \<open>Runs that meet an I/O fault\<close>

lemma for_lines_Inl:
  "for_lines h wfault rfault ls s = Inl (e, s') \<Longrightarrow>
     rfault = Some e \<or> (\<exists>k. wfault = Some (k, e))"
proof (induction ls arbitrary: s)
  case Nil
  then show ?case by (simp split: option.splits)
next
  case (Cons line rest)
  show ?case
  proof (cases "process_line h wfault line s")
    case (Inl e')
    with Cons.prems have "e' = e" by simp
    with process_line_Inl [OF Inl] show ?thesis by blast
  next
    case (Inr s1)
    with Cons.prems have "for_lines h wfault rfault rest s1 = Inl (e, s')" by simp
    then show ?thesis by (rule Cons.IH)
  qed
qed

lemma for_lines_write_fault:
  "for_lines h (Some (k, e)) rfault ls s = Inr s' \<Longrightarrow> length (f_out s) \<le> k \<Longrightarrow>
     length (f_out s') \<le> k"
proof (induction ls arbitrary: s)
  case Nil
  then show ?case by (simp split: option.splits)
next
  case (Cons line rest)
  from Cons.prems(1) obtain s1 where
    step: "process_line h (Some (k, e)) line s = Inr s1" and
    rest: "for_lines h (Some (k, e)) rfault rest s1 = Inr s'"
    by (auto split: sum.splits)
  from step Cons.prems(2) have "length (f_out s1) \<le> k"
    by (auto simp: process_line_def Let_def split: if_splits)
  with rest show ?case by (rule Cons.IH)
qed

lemma run_returns_no_fault:
  assumes "outcome (remove_duplicates h input_file output_file env) = Inr c"
  shows "open_input env = None \<and> open_output env = None \<and> read_fault env = None \<and>
         close_output env = None \<and>
         (\<forall>k e. write_fault env = Some (k, e) \<longrightarrow>
            length (first_occurrences h (input_lines env)) \<le> k)"
proof -
  from assms obtain s where
    opens: "open_input env = None" "open_output env = None" "close_output env = None" and
    loop: "for_lines h (write_fault env) (read_fault env) (input_lines env) initial_state = Inr s"
    by (auto simp: remove_duplicates_def except_clauses_outcome
        split: option.splits sum.splits prod.splits)
  from for_lines_Inr [OF loop] have
    rf: "read_fault env = None" and
    out: "f_out s = first_occurrences h (input_lines env)"
    by (simp_all add: initial_state_def first_occurrences_unseen)
  have "length (first_occurrences h (input_lines env)) \<le> k"
    if "write_fault env = Some (k, e)" for k e
    using for_lines_write_fault [of h k e "read_fault env" "input_lines env" initial_state s]
      loop that out
    by (simp add: initial_state_def)
  with opens rf show ?thesis by blast
qed

lemma run_aborts:
  assumes "\<forall>c. outcome (remove_duplicates h input_file output_file env) \<noteq> Inr c"
  shows "\<exists>e out. e \<in> faults env \<and>
           remove_duplicates h input_file output_file env =
             except_clauses input_file output_file (print_fault env) e out"
proof (cases "open_input env")
  case (Some e)
  then show ?thesis
    by (auto simp: remove_duplicates_def faults_def)
next
  case None
  note in_ok = this
  show ?thesis
  proof (cases "open_output env")
    case (Some e)
    with in_ok show ?thesis
      by (auto simp: remove_duplicates_def faults_def)
  next
    case None
    note out_ok = this
    show ?thesis
    proof (cases "for_lines h (write_fault env) (read_fault env) (input_lines env) initial_state")
      case (Inl p)
      obtain e s where p: "p = (e, s)" by (cases p)
      from for_lines_Inl [of h "write_fault env" "read_fault env" "input_lines env"
          initial_state e s] Inl p
      have "e \<in> faults env" by (auto simp: faults_def)
      moreover have "e' \<in> faults env" if "close_output env = Some e'" for e'
        using that by (simp add: faults_def)
      ultimately show ?thesis
        using in_ok out_ok Inl p
        by (cases "close_output env") (auto simp: remove_duplicates_def)
    next
      case (Inr s)
      show ?thesis
      proof (cases "close_output env")
        case None
        with in_ok out_ok Inr assms show ?thesis
          by (simp add: remove_duplicates_def)
      next
        case (Some e)
        with in_ok out_ok Inr show ?thesis
          by (auto simp: remove_duplicates_def faults_def)
      qed
    qed
  qed
qed

lemma handler_message_Exception:
  "is_Exception e \<Longrightarrow> \<exists>m. handler_message input_file output_file e = Some m"
  by (cases e) simp_all

lemma except_clauses_caught:
  "handler_message input_file output_file e = Some m \<Longrightarrow>
     except_clauses input_file output_file pfault e out =
       (case pfault of
          None \<Rightarrow> \<lparr>outcome = Inl (SystemExit 1), printed = [m], output_lines = out\<rparr>
        | Some e' \<Rightarrow> \<lparr>outcome = Inl (Propagated e'), printed = [], output_lines = out\<rparr>)"
  by (simp add: except_clauses_def split: option.splits)

section \<open>The claims\<close>

text \<open>
  C1. For every input stream, of any number of lines, the lines that
  \<^verbatim>\<open>remove_duplicates\<close> writes to the output are exactly the input's lines filtered
  to first occurrences (a line is kept iff no earlier line produced the same digest), in
  their order in the input: a run that meets no I/O fault returns, and whenever the
  function returns this is what it has written.
\<close>

theorem output_is_first_occurrences:
  "(fault_free env \<longrightarrow>
      (\<exists>c. outcome (remove_duplicates h input_file output_file env) = Inr c)) \<and>
   (\<forall>c. outcome (remove_duplicates h input_file output_file env) = Inr c \<longrightarrow>
      output_lines (remove_duplicates h input_file output_file env) =
        Some (first_occurrences h (input_lines env)))"
proof (intro conjI impI allI)
  assume "fault_free env"
  from run_fault_free [OF this, of h input_file output_file]
  show "\<exists>c. outcome (remove_duplicates h input_file output_file env) = Inr c" by simp
next
  fix c
  assume c: "outcome (remove_duplicates h input_file output_file env) = Inr c"
  obtain u d where "c = (u, d)" by (cases c)
  with c run_returns [of h input_file output_file env u d]
  show "output_lines (remove_duplicates h input_file output_file env) =
        Some (first_occurrences h (input_lines env))" by simp
qed

theorem output_is_first_occurrences_witness:
  "fault_free (stream_env [[CHR ''a'', LF], [CHR ''b'', LF], [CHR ''a'', LF]]) \<and>
   (\<exists>c. outcome (remove_duplicates md5_digest ''in.txt'' ''out.txt''
          (stream_env [[CHR ''a'', LF], [CHR ''b'', LF], [CHR ''a'', LF]])) = Inr c) \<and>
   output_lines (remove_duplicates md5_digest ''in.txt'' ''out.txt''
          (stream_env [[CHR ''a'', LF], [CHR ''b'', LF], [CHR ''a'', LF]])) =
     Some [[CHR ''a'', LF], [CHR ''b'', LF]]"
  using output_is_first_occurrences
    [of "stream_env [[CHR ''a'', LF], [CHR ''b'', LF], [CHR ''a'', LF]]" md5_digest
      "''in.txt''" "''out.txt''"]
  by (auto simp: fault_free_stream_env input_lines_stream_env first_occurrences_def
      md5_line_a md5_line_b)

text \<open>
  C2. Both counters start at zero, every line the loop processes increments exactly one
  of them, and the pair \<open>(unique_count, duplicate_count)\<close> that
  \<^verbatim>\<open>remove_duplicates\<close> returns adds up to the number of lines read from the input;
  a run that meets no I/O fault returns such a pair.
\<close>

theorem counters_add_up:
  "unique_count (initial_state :: 'd loop_state) = 0 \<and>
   duplicate_count (initial_state :: 'd loop_state) = 0 \<and>
   (\<forall>s'. process_line (h :: string \<Rightarrow> 'd) wfault line s = Inr s' \<longrightarrow>
      (unique_count s' = unique_count s + 1 \<and> duplicate_count s' = duplicate_count s) \<or>
      (unique_count s' = unique_count s \<and> duplicate_count s' = duplicate_count s + 1)) \<and>
   (\<forall>u d. outcome (remove_duplicates h input_file output_file env) = Inr (u, d) \<longrightarrow>
      u + d = int (length (input_lines env))) \<and>
   (fault_free env \<longrightarrow>
      (\<exists>u d. outcome (remove_duplicates h input_file output_file env) = Inr (u, d)))"
proof (intro conjI allI impI)
  show "unique_count (initial_state :: 'd loop_state) = 0"
    and "duplicate_count (initial_state :: 'd loop_state) = 0"
    by (simp_all add: initial_state_def)
next
  fix s'
  assume "process_line h wfault line s = Inr s'"
  from process_line_cases [OF this]
  show "(unique_count s' = unique_count s + 1 \<and> duplicate_count s' = duplicate_count s) \<or>
        (unique_count s' = unique_count s \<and> duplicate_count s' = duplicate_count s + 1)"
    by auto
next
  fix u d
  assume "outcome (remove_duplicates h input_file output_file env) = Inr (u, d)"
  from run_returns [OF this] show "u + d = int (length (input_lines env))" by simp
next
  assume "fault_free env"
  from run_fault_free [OF this, of h input_file output_file]
  show "\<exists>u d. outcome (remove_duplicates h input_file output_file env) = Inr (u, d)"
    by simp
qed

theorem counters_add_up_witness:
  "process_line md5_digest None [CHR ''a'', LF] initial_state =
     Inr \<lparr>seen_hashes = {md5_digest [CHR ''a'', LF]}, unique_count = 1, duplicate_count = 0,
          f_out = [[CHR ''a'', LF]]\<rparr> \<and>
   outcome (remove_duplicates md5_digest ''in.txt'' ''out.txt''
      (stream_env [[CHR ''a'', LF], [CHR ''b'', LF], [CHR ''a'', LF]])) = Inr (2, 1) \<and>
   (2::int) + 1 = int (length (input_lines
      (stream_env [[CHR ''a'', LF], [CHR ''b'', LF], [CHR ''a'', LF]]))) \<and>
   fault_free (stream_env [[CHR ''a'', LF], [CHR ''b'', LF], [CHR ''a'', LF]])"
  using counters_add_up
    [of md5_digest None "[CHR ''a'', LF]" initial_state "''in.txt''" "''out.txt''"
      "stream_env [[CHR ''a'', LF], [CHR ''b'', LF], [CHR ''a'', LF]]"]
  by (simp add: fault_free_stream_env input_lines_stream_env run_fault_free
      first_occurrences_def md5_line_a md5_line_b process_line_no_fault initial_state_def)

text \<open>
  C3. The claim, as stated, fails: the input is read in text mode with universal
  newlines, so \<^verbatim>\<open>a\r\n\<close> and \<^verbatim>\<open>a\n\<close> reach the loop as the same line
  \<^verbatim>\<open>a\n\<close>. For the file \<^verbatim>\<open>a\r\na\n\<close> the second line is counted as a duplicate
  (the pair returned is 1 and 1, not 2 and 0), and on a POSIX platform the output file
  holds \<^verbatim>\<open>a\n\<close>: the first line has lost its terminator \<^verbatim>\<open>\r\n\<close>.
\<close>

theorem line_ending_style_counterexample:
  "remove_duplicates md5_digest ''in.txt'' ''out.txt''
     (text_file_env [CHR ''a'', CR, LF, CHR ''a'', LF]) =
     \<lparr>outcome = Inr (1, 1), printed = [], output_lines = Some [[CHR ''a'', LF]]\<rparr> \<and>
   outcome (remove_duplicates md5_digest ''in.txt'' ''out.txt''
     (text_file_env [CHR ''a'', CR, LF, CHR ''a'', LF])) \<noteq> Inr (2, 0) \<and>
   file_bytes Posix [[CHR ''a'', LF]] = [CHR ''a'', LF] \<and>
   file_bytes Posix [[CHR ''a'', LF]] \<noteq> [CHR ''a'', CR, LF, CHR ''a'', LF]"
  by (simp add: run_fault_free fault_free_stream_env input_lines_stream_env
      first_occurrences_def text_file_env_def file_bytes_def write_newlines_def)

text \<open>
  C3, as amended. Line terminators are normalised when the input is read. Let a decodable
  input file, another file than the output, hold two lines that differ only in their
  line-ending style (\<^verbatim>\<open>\n\<close> or \<^verbatim>\<open>\r\n\<close>), each at the start of the file or
  after a \<^verbatim>\<open>\n\<close>, with any text before, between and after them, and let no I/O
  call fail. Then the later line is treated as a duplicate of the earlier one, whatever
  the digest function: the run writes what the function writes for the file without the
  later line and returns the same \<open>unique_count\<close> and one more \<open>duplicate_count\<close>.
  The output file holds the written lines one after the other, and each of them ends
  there with the platform's line separator, whatever its terminator in the input was (a
  line without terminator is written without one).
\<close>

theorem line_endings_normalised:
  assumes "fault_free (open_files fs input_file output_file)"
    and "resolve fs input_file \<noteq> resolve fs output_file"
    and "contents fs (resolve fs input_file) = Some (p @ x @ t1 @ m @ x @ t2 @ q)"
    and "p = [] \<or> last p = LF" and "m = [] \<or> last m = LF"
    and "CR \<notin> set x" and "LF \<notin> set x"
    and "t1 = [LF] \<or> t1 = [CR, LF]" and "t2 = [LF] \<or> t2 = [CR, LF]"
  shows "\<exists>u d ws.
     remove_duplicates h input_file output_file (text_file_env (p @ x @ t1 @ m @ q)) =
       \<lparr>outcome = Inr (u, d), printed = [], output_lines = Some ws\<rparr> \<and>
     remove_duplicates h input_file output_file (open_files fs input_file output_file) =
       \<lparr>outcome = Inr (u, d + 1), printed = [], output_lines = Some ws\<rparr> \<and>
     file_bytes os ws = concat (map (\<lambda>w. file_bytes os [w]) ws) \<and>
     (\<forall>w \<in> set ws. \<exists>y. CR \<notin> set y \<and> LF \<notin> set y \<and>
        ((w = y @ [LF] \<and> file_bytes os [w] = y @ os_linesep os) \<or>
         (w = y \<and> file_bytes os [w] = y)))"
proof -
  let ?L = "\<lambda>c. text_lines (universal_newlines c)"
  let ?l = "x @ [LF]"
  have first: "?L (x @ t1 @ r) = ?l # ?L r" for r
    using assms(6, 7, 8) by (rule file_lines_line)
  have second: "?L (x @ t2 @ r) = ?l # ?L r" for r
    using assms(6, 7, 9) by (rule file_lines_line)
  have without: "?L (p @ x @ t1 @ m @ q) = (?L p @ ?l # ?L m) @ ?L q"
    using assms(4, 5) by (simp add: file_lines_split first)
  have whole: "?L (p @ x @ t1 @ m @ x @ t2 @ q) = (?L p @ ?l # ?L m) @ ?l # ?L q"
    using assms(4, 5) by (simp add: file_lines_split first second)
  have "h ?l \<in> h ` set (?L p @ ?l # ?L m)" by simp
  then have same:
    "first_occurrences h (?L (p @ x @ t1 @ m @ x @ t2 @ q)) =
     first_occurrences h (?L (p @ x @ t1 @ m @ q))"
    unfolding whole without by (rule first_occurrences_drop)
  have lines: "input_lines (open_files fs input_file output_file) =
      ?L (p @ x @ t1 @ m @ x @ t2 @ q)"
    using assms(1, 2, 3) by (rule open_files_fault_free)
  have len: "length (?L (p @ x @ t1 @ m @ x @ t2 @ q)) = Suc (length (?L (p @ x @ t1 @ m @ q)))"
    unfolding whole without by simp
  have written: "\<forall>w \<in> set (first_occurrences h (?L (p @ x @ t1 @ m @ q))).
      \<exists>y. CR \<notin> set y \<and> LF \<notin> set y \<and>
        ((w = y @ [LF] \<and> file_bytes os [w] = y @ os_linesep os) \<or>
         (w = y \<and> file_bytes os [w] = y))"
    using first_occurrences_written by blast
  have bytes: "file_bytes os ws = concat (map (\<lambda>w. file_bytes os [w]) ws)" for ws
    by (simp add: file_bytes_def)
  let ?ws = "first_occurrences h (?L (p @ x @ t1 @ m @ q))"
  have "remove_duplicates h input_file output_file (text_file_env (p @ x @ t1 @ m @ q)) =
       \<lparr>outcome = Inr (int (length ?ws), int (length (?L (p @ x @ t1 @ m @ q))) - int (length ?ws)),
        printed = [], output_lines = Some ?ws\<rparr>"
    by (simp add: run_fault_free fault_free_stream_env input_lines_stream_env
        text_file_env_def)
  moreover have
    "remove_duplicates h input_file output_file (open_files fs input_file output_file) =
       \<lparr>outcome = Inr (int (length ?ws),
          int (length (?L (p @ x @ t1 @ m @ q))) - int (length ?ws) + 1),
        printed = [], output_lines = Some ?ws\<rparr>"
    by (simp add: run_fault_free [OF assms(1)] lines same len)
  ultimately show ?thesis
    using written bytes [of ?ws] by blast
qed

theorem line_endings_normalised_witness:
  "fault_free (open_files (single_file ''in.txt''
      [CHR ''a'', CR, LF, CHR ''b'', LF, CHR ''a'', LF]) ''in.txt'' ''out.txt'') \<and>
   resolve (single_file ''in.txt''
      [CHR ''a'', CR, LF, CHR ''b'', LF, CHR ''a'', LF]) ''in.txt'' \<noteq>
   resolve (single_file ''in.txt''
      [CHR ''a'', CR, LF, CHR ''b'', LF, CHR ''a'', LF]) ''out.txt'' \<and>
   contents (single_file ''in.txt'' [CHR ''a'', CR, LF, CHR ''b'', LF, CHR ''a'', LF])
     (resolve (single_file ''in.txt''
        [CHR ''a'', CR, LF, CHR ''b'', LF, CHR ''a'', LF]) ''in.txt'') =
     Some ([] @ ''a'' @ [CR, LF] @ [CHR ''b'', LF] @ ''a'' @ [LF] @ []) \<and>
   last [CHR ''b'', LF] = LF \<and> CR \<notin> set ''a'' \<and> LF \<notin> set ''a'' \<and>
   remove_duplicates md5_digest ''in.txt'' ''out.txt''
     (text_file_env [CHR ''a'', CR, LF, CHR ''b'', LF]) =
     \<lparr>outcome = Inr (2, 0), printed = [],
      output_lines = Some [[CHR ''a'', LF], [CHR ''b'', LF]]\<rparr> \<and>
   remove_duplicates md5_digest ''in.txt'' ''out.txt''
     (open_files (single_file ''in.txt''
        [CHR ''a'', CR, LF, CHR ''b'', LF, CHR ''a'', LF]) ''in.txt'' ''out.txt'') =
     \<lparr>outcome = Inr (2, 0 + 1), printed = [],
      output_lines = Some [[CHR ''a'', LF], [CHR ''b'', LF]]\<rparr> \<and>
   file_bytes Windows [[CHR ''a'', LF]] = ''a'' @ os_linesep Windows \<and>
   file_bytes Posix [[CHR ''a'', LF]] = ''a'' @ os_linesep Posix"
proof -
  let ?fs = "single_file ''in.txt'' [CHR ''a'', CR, LF, CHR ''b'', LF, CHR ''a'', LF]"
  have hyp: "fault_free (open_files ?fs ''in.txt'' ''out.txt'')"
    "resolve ?fs ''in.txt'' \<noteq> resolve ?fs ''out.txt''"
    "contents ?fs (resolve ?fs ''in.txt'') =
       Some ([] @ ''a'' @ [CR, LF] @ [CHR ''b'', LF] @ ''a'' @ [LF] @ [])"
    "[] = [] \<or> last [] = LF" "[CHR ''b'', LF] = [] \<or> last [CHR ''b'', LF] = LF"
    "CR \<notin> set ''a''" "LF \<notin> set ''a''"
    "[CR, LF] = [LF] \<or> [CR, LF] = [CR, LF]" "[LF] = [LF] \<or> [LF] = [CR, LF]"
    by (simp_all add: fault_free_def open_files_def single_file_def)
  have runs: "remove_duplicates md5_digest ''in.txt'' ''out.txt''
       (text_file_env [CHR ''a'', CR, LF, CHR ''b'', LF]) =
     \<lparr>outcome = Inr (2, 0), printed = [],
      output_lines = Some [[CHR ''a'', LF], [CHR ''b'', LF]]\<rparr>"
    by (simp add: run_fault_free fault_free_stream_env input_lines_stream_env
        first_occurrences_def text_file_env_def md5_line_a md5_line_b)
  have bytes: "file_bytes Windows [[CHR ''a'', LF]] = ''a'' @ os_linesep Windows"
    "file_bytes Posix [[CHR ''a'', LF]] = ''a'' @ os_linesep Posix"
    by (simp_all add: file_bytes_def write_newlines_def)
  from line_endings_normalised [OF hyp, of md5_digest Posix] runs
  have "remove_duplicates md5_digest ''in.txt'' ''out.txt''
     (open_files ?fs ''in.txt'' ''out.txt'') =
     \<lparr>outcome = Inr (2, 0 + 1), printed = [],
      output_lines = Some [[CHR ''a'', LF], [CHR ''b'', LF]]\<rparr>"
    by auto
  with hyp runs bytes show ?thesis by simp
qed

text \<open>
  C4. The claim, as stated, fails: when the input file is missing, the
  \<^verbatim>\<open>FileNotFoundError\<close> does not reach the caller. The function catches it, prints
  its own message and raises \<^verbatim>\<open>SystemExit(1)\<close>.
\<close>

theorem error_propagation_counterexample:
  "remove_duplicates md5_digest ''missing.txt'' ''out.txt''
     ((stream_env [])\<lparr>open_input := Some FileNotFoundError\<rparr>) =
     \<lparr>outcome = Inl (SystemExit 1), printed = [InputNotFound ''missing.txt''],
      output_lines = None\<rparr> \<and>
   outcome (remove_duplicates md5_digest ''missing.txt'' ''out.txt''
     ((stream_env [])\<lparr>open_input := Some FileNotFoundError\<rparr>)) \<noteq>
     Inl (Propagated FileNotFoundError)"
  by (simp add: remove_duplicates_def stream_env_def except_clauses_def)

text \<open>
  C4, as amended. When an I/O error occurs (the input is not found, permission is denied,
  or any other fault of opening, reading, writing or closing that is an
  \<^verbatim>\<open>Exception\<close>), \<^verbatim>\<open>remove_duplicates\<close> aborts and does not return the counts
  accumulated so far. It catches the error itself and prints a message chosen by the kind
  of the error. When the message is printed, the function raises \<^verbatim>\<open>SystemExit\<close>
  with exit code 1 in place of the error; when printing the message raises, that
  exception leaves the function instead.
\<close>

theorem io_error_exits:
  assumes "\<forall>e \<in> faults env. is_Exception e"
    and "open_input env \<noteq> None \<or> open_output env \<noteq> None \<or> read_fault env \<noteq> None \<or>
         close_output env \<noteq> None \<or>
         (\<exists>k e. write_fault env = Some (k, e) \<and>
            k < length (first_occurrences h (input_lines env)))"
  shows "\<exists>e m out. e \<in> faults env \<and> handler_message input_file output_file e = Some m \<and>
           remove_duplicates h input_file output_file env =
             (case print_fault env of
                None \<Rightarrow> \<lparr>outcome = Inl (SystemExit 1), printed = [m], output_lines = out\<rparr>
              | Some e' \<Rightarrow> \<lparr>outcome = Inl (Propagated e'), printed = [], output_lines = out\<rparr>)"
proof -
  have "outcome (remove_duplicates h input_file output_file env) \<noteq> Inr c" for c
  proof
    assume "outcome (remove_duplicates h input_file output_file env) = Inr c"
    from run_returns_no_fault [OF this] assms(2) show False by fastforce
  qed
  then obtain e out where
    e: "e \<in> faults env" and
    r: "remove_duplicates h input_file output_file env =
          except_clauses input_file output_file (print_fault env) e out"
    using run_aborts [of h input_file output_file env] by blast
  from e assms(1) have "is_Exception e" by blast
  then obtain m where m: "handler_message input_file output_file e = Some m"
    using handler_message_Exception by blast
  from except_clauses_caught [OF m, of "print_fault env" out] e m r
  show ?thesis by auto
qed

theorem io_error_exits_witness:
  "is_Exception (OtherException ''No space left on device'') \<and>
   faults ((stream_env [[CHR ''a'', LF], [CHR ''b'', LF]])
     \<lparr>write_fault := Some (1, OtherException ''No space left on device''),
      print_fault := Some (OtherException ''UnicodeEncodeError'')\<rparr>) =
     {OtherException ''No space left on device''} \<and>
   (1::nat) < length (first_occurrences md5_digest [[CHR ''a'', LF], [CHR ''b'', LF]]) \<and>
   handler_message ''in.txt'' ''out.txt'' (OtherException ''No space left on device'') =
     Some (ProcessingError ''No space left on device'') \<and>
   remove_duplicates md5_digest ''in.txt'' ''out.txt''
     ((stream_env [[CHR ''a'', LF], [CHR ''b'', LF]])
       \<lparr>write_fault := Some (1, OtherException ''No space left on device''),
        print_fault := Some (OtherException ''UnicodeEncodeError'')\<rparr>) =
     \<lparr>outcome = Inl (Propagated (OtherException ''UnicodeEncodeError'')), printed = [],
      output_lines = Some [[CHR ''a'', LF]]\<rparr> \<and>
   remove_duplicates md5_digest ''in.txt'' ''out.txt''
     ((stream_env [[CHR ''a'', LF], [CHR ''b'', LF]])
       \<lparr>write_fault := Some (1, OtherException ''No space left on device'')\<rparr>) =
     \<lparr>outcome = Inl (SystemExit 1), printed = [ProcessingError ''No space left on device''],
      output_lines = Some [[CHR ''a'', LF]]\<rparr>"
  using io_error_exits
    [of "(stream_env [[CHR ''a'', LF], [CHR ''b'', LF]])
           \<lparr>write_fault := Some (1, OtherException ''No space left on device'')\<rparr>"
      md5_digest "''in.txt''" "''out.txt''"]
    io_error_exits
    [of "(stream_env [[CHR ''a'', LF], [CHR ''b'', LF]])
           \<lparr>write_fault := Some (1, OtherException ''No space left on device''),
            print_fault := Some (OtherException ''UnicodeEncodeError'')\<rparr>"
      md5_digest "''in.txt''" "''out.txt''"]
  by (simp add: faults_def stream_env_def first_occurrences_def md5_line_a md5_line_b
      remove_duplicates_def process_line_def initial_state_def except_clauses_def)

text \<open>
  C5. Running the function again on the output of a first run returns the first run's
  \<open>unique_count\<close> and a \<open>duplicate_count\<close> of 0, and writes the lines it has read, so
  that the second output file holds the bytes of the first: for the lines of any input
  stream, and for the bytes of any input file on either platform.
\<close>

theorem second_run_changes_nothing:
  "(\<exists>u d ws.
      remove_duplicates h input_file output_file (stream_env ls) =
        \<lparr>outcome = Inr (u, d), printed = [], output_lines = Some ws\<rparr> \<and>
      remove_duplicates h output_file output_file2 (stream_env ws) =
        \<lparr>outcome = Inr (u, 0), printed = [], output_lines = Some ws\<rparr>) \<and>
   (\<exists>u d ws.
      remove_duplicates h input_file output_file (text_file_env content) =
        \<lparr>outcome = Inr (u, d), printed = [], output_lines = Some ws\<rparr> \<and>
      remove_duplicates h output_file output_file2 (text_file_env (file_bytes os ws)) =
        \<lparr>outcome = Inr (u, 0), printed = [], output_lines = Some ws\<rparr>)"
proof -
  have again: "first_occurrences h (first_occurrences h xs) = first_occurrences h xs" for xs
    by (rule first_occurrences_all_new) (rule first_occurrences_distinct)
  show ?thesis
    by (simp add: run_fault_free fault_free_stream_env input_lines_stream_env again
        text_file_env_def reread_output)
qed

text \<open>
  C6. When the loop writes a line, the line's digest is not in \<open>seen_hashes\<close> and is
  inserted in the same step; consequently the lines of the output have pairwise
  different digests and no two of them are byte-identical. This holds for the output of
  every run, also of one that an I/O fault cuts short.
\<close>

theorem written_lines_are_new:
  "(\<forall>s'. process_line h wfault line s = Inr s' \<and> f_out s' \<noteq> f_out s \<longrightarrow>
      h line \<notin> seen_hashes s \<and> f_out s' = f_out s @ [line] \<and>
      seen_hashes s' = insert (h line) (seen_hashes s)) \<and>
   (\<forall>ws. output_lines (remove_duplicates h input_file output_file env) = Some ws \<longrightarrow>
      distinct (map h ws) \<and> distinct ws)"
proof -
  have step: "h line \<notin> seen_hashes s \<and> f_out s' = f_out s @ [line] \<and>
      seen_hashes s' = insert (h line) (seen_hashes s)"
    if "process_line h wfault line s = Inr s'" and "f_out s' \<noteq> f_out s" for s'
    using process_line_cases [OF that(1)] that(2) by auto
  have run: "distinct (map h ws) \<and> distinct ws"
    if "output_lines (remove_duplicates h input_file output_file env) = Some ws" for ws
  proof -
    from run_output_prefix [OF that] obtain k where
      ws: "ws = take k (first_occurrences h (input_lines env))" by blast
    have "distinct (map h ws)"
      unfolding ws take_map [symmetric]
      by (rule distinct_take) (rule first_occurrences_distinct)
    then show ?thesis by (simp add: distinct_map)
  qed
  from step run show ?thesis by blast
qed

theorem written_lines_are_new_witness:
  "process_line md5_digest None [CHR ''b'', LF]
     \<lparr>seen_hashes = {md5_digest [CHR ''a'', LF]}, unique_count = 1, duplicate_count = 0,
      f_out = [[CHR ''a'', LF]]\<rparr> =
     Inr \<lparr>seen_hashes = {md5_digest [CHR ''b'', LF], md5_digest [CHR ''a'', LF]},
          unique_count = 2, duplicate_count = 0, f_out = [[CHR ''a'', LF], [CHR ''b'', LF]]\<rparr> \<and>
   md5_digest [CHR ''b'', LF] \<notin> {md5_digest [CHR ''a'', LF]} \<and>
   output_lines (remove_duplicates md5_digest ''in.txt'' ''out.txt''
      (stream_env [[CHR ''a'', LF], [CHR ''b'', LF], [CHR ''a'', LF]])) =
     Some [[CHR ''a'', LF], [CHR ''b'', LF]] \<and>
   distinct (map md5_digest [[CHR ''a'', LF], [CHR ''b'', LF]]) \<and>
   distinct [[CHR ''a'', LF], [CHR ''b'', LF]]"
  using written_lines_are_new
    [of md5_digest None "[CHR ''b'', LF]"
      "\<lparr>seen_hashes = {md5_digest [CHR ''a'', LF]}, unique_count = 1, duplicate_count = 0,
        f_out = [[CHR ''a'', LF]]\<rparr>"
      "''in.txt''" "''out.txt''"
      "stream_env [[CHR ''a'', LF], [CHR ''b'', LF], [CHR ''a'', LF]]"]
  by (simp add: fault_free_stream_env input_lines_stream_env run_fault_free
      first_occurrences_def md5_line_a md5_line_b process_line_no_fault)

text \<open>
  C7. A line whose digest equals that of an earlier line is treated as a duplicate even
  when it differs byte-wise from every earlier line: it is not written, and its only
  effect on the result is one more in \<open>duplicate_count\<close>. The contents of lines are
  never compared.
\<close>

theorem collision_is_duplicate:
  assumes "h l \<in> h ` set pre" and "l \<notin> set pre"
  shows "\<exists>u d ws.
     remove_duplicates h input_file output_file (stream_env (pre @ post)) =
       \<lparr>outcome = Inr (u, d), printed = [], output_lines = Some ws\<rparr> \<and>
     remove_duplicates h input_file output_file (stream_env (pre @ l # post)) =
       \<lparr>outcome = Inr (u, d + 1), printed = [], output_lines = Some ws\<rparr> \<and>
     l \<notin> set ws"
proof -
  let ?ws = "first_occurrences h (pre @ post)"
  have same: "first_occurrences h (pre @ l # post) = ?ws"
    using assms(1) by (rule first_occurrences_drop)
  have "l \<notin> set (unseen_lines h {} pre)"
    using assms(2) unseen_lines_subset [of h "{}" pre] by auto
  moreover have "l \<notin> set (unseen_lines h (h ` set pre) post)"
    using assms(1) unseen_lines_fresh [of h "h ` set pre" post] by auto
  ultimately have "l \<notin> set ?ws"
    by (simp add: first_occurrences_unseen unseen_lines_append)
  then show ?thesis
    by (simp add: run_fault_free fault_free_stream_env input_lines_stream_env same)
qed

theorem collision_is_duplicate_witness:
  "take 1 ''ac'' \<in> take 1 ` set [''ab''] \<and> ''ac'' \<notin> set [''ab''] \<and>
   remove_duplicates (take 1) ''in.txt'' ''out.txt'' (stream_env ([''ab''] @ [''b''])) =
     \<lparr>outcome = Inr (2, 0), printed = [], output_lines = Some [''ab'', ''b'']\<rparr> \<and>
   remove_duplicates (take 1) ''in.txt'' ''out.txt'' (stream_env ([''ab''] @ ''ac'' # [''b''])) =
     \<lparr>outcome = Inr (2, 0 + 1), printed = [], output_lines = Some [''ab'', ''b'']\<rparr> \<and>
   ''ac'' \<notin> set [''ab'', ''b'']"
proof -
  have hyp: "take 1 ''ac'' \<in> take 1 ` set [''ab'']" "''ac'' \<notin> set [''ab'']"
    by simp_all
  from collision_is_duplicate [OF hyp, of "''in.txt''" "''out.txt''" "[''b'']"]
  show ?thesis
    by (simp add: run_fault_free fault_free_stream_env input_lines_stream_env
        first_occurrences_def)
qed

text \<open>
  C8 (scenario A). For the input lines \<^verbatim>\<open>a\n\<close>, \<^verbatim>\<open>b\n\<close>, \<^verbatim>\<open>a\n\<close>,
  \<^verbatim>\<open>c\n\<close>, \<^verbatim>\<open>b\n\<close> the function writes \<^verbatim>\<open>a\n\<close>, \<^verbatim>\<open>b\n\<close>,
  \<^verbatim>\<open>c\n\<close> and returns 3 unique lines and 2 duplicates. These are the lines of the
  file \<^verbatim>\<open>a\nb\na\nc\nb\n\<close>.
\<close>

theorem scenario_a:
  "remove_duplicates md5_digest input_file output_file
     (stream_env [[CHR ''a'', LF], [CHR ''b'', LF], [CHR ''a'', LF], [CHR ''c'', LF],
        [CHR ''b'', LF]]) =
     \<lparr>outcome = Inr (3, 2), printed = [],
      output_lines = Some [[CHR ''a'', LF], [CHR ''b'', LF], [CHR ''c'', LF]]\<rparr> \<and>
   text_file_env [CHR ''a'', LF, CHR ''b'', LF, CHR ''a'', LF, CHR ''c'', LF, CHR ''b'', LF] =
     stream_env [[CHR ''a'', LF], [CHR ''b'', LF], [CHR ''a'', LF], [CHR ''c'', LF],
        [CHR ''b'', LF]]"
  by (simp add: run_fault_free fault_free_stream_env input_lines_stream_env
      first_occurrences_def md5_line_a md5_line_b md5_line_c text_file_env_def)

text \<open>
  C9 (scenario B). For an input of zero lines, which is what an empty file yields, the
  function writes nothing and returns 0 and 0.
\<close>

theorem scenario_empty_input:
  "remove_duplicates h input_file output_file (stream_env []) =
     \<lparr>outcome = Inr (0, 0), printed = [], output_lines = Some []\<rparr> \<and>
   text_file_env [] = stream_env [] \<and> file_bytes os [] = []"
  by (simp add: run_fault_free fault_free_stream_env input_lines_stream_env
      first_occurrences_def text_file_env_def file_bytes_def)




end
